theory Spec2Isabelle
  imports Main
begin

section \<open>Python strings\<close>

text \<open>
  A Python \<open>str\<close> is a sequence of Unicode code points: \<open>len\<close>, slicing, \<open>in\<close> and the
  \<open>re\<close> module all work on code points, not on bytes. A string is therefore a list of
  code points (natural numbers). \<open>cp\<close> turns an ASCII literal into that form; the Cyrillic
  letters and the Euro sign of the source are written with their code points.
\<close>

type_synonym pystr = "nat list"

definition cp :: "string \<Rightarrow> pystr" where
  "cp = map of_char"

text \<open>
  The character classes of \<open>re\<close> on \<open>str\<close> patterns follow the Unicode database:
  \<open>\d\<close> is the general category Nd, \<open>\s\<close> is what \<open>str.isspace\<close> accepts. The decimal
  digits come in runs of ten consecutive code points, zero first; \<open>decimal_zeros\<close> lists the
  zero of each run (Unicode 14.0, the database of CPython 3.11).
\<close>

definition decimal_zeros :: "nat list" where
  "decimal_zeros =
    [0x30, 0x660, 0x6F0, 0x7C0, 0x966, 0x9E6, 0xA66, 0xAE6, 0xB66, 0xBE6, 0xC66,
     0xCE6, 0xD66, 0xDE6, 0xE50, 0xED0, 0xF20, 0x1040, 0x1090, 0x17E0, 0x1810,
     0x1946, 0x19D0, 0x1A80, 0x1A90, 0x1B50, 0x1BB0, 0x1C40, 0x1C50, 0xA620,
     0xA8D0, 0xA900, 0xA9D0, 0xA9F0, 0xAA50, 0xABF0, 0xFF10, 0x104A0, 0x10D30,
     0x11066, 0x110F0, 0x11136, 0x111D0, 0x112F0, 0x11450, 0x114D0, 0x11650,
     0x116C0, 0x11730, 0x118E0, 0x11950, 0x11C50, 0x11D50, 0x11DA0, 0x16A60,
     0x16AC0, 0x16B50, 0x1D7CE, 0x1D7D8, 0x1D7E2, 0x1D7EC, 0x1D7F6, 0x1E140,
     0x1E2F0, 0x1E950, 0x1FBF0]"

definition decimal_value :: "nat \<Rightarrow> nat option" where
  "decimal_value c =
     (case find (\<lambda>z. z \<le> c \<and> c < z + 10) decimal_zeros of
        None \<Rightarrow> None
      | Some z \<Rightarrow> Some (c - z))"

definition isdecimal :: "nat \<Rightarrow> bool" where
  "isdecimal c = (decimal_value c \<noteq> None)"

definition isspace :: "nat \<Rightarrow> bool" where
  "isspace c =
     (c \<in> set [0x9, 0xA, 0xB, 0xC, 0xD, 0x1C, 0x1D, 0x1E, 0x1F, 0x20, 0x85, 0xA0,
                0x1680, 0x2000, 0x2001, 0x2002, 0x2003, 0x2004, 0x2005, 0x2006,
                0x2007, 0x2008, 0x2009, 0x200A, 0x2028, 0x2029, 0x202F, 0x205F,
                0x3000])"

text \<open>\<open>s.startswith(p)\<close> and the substring test \<open>p in s\<close>.\<close>

definition startswith :: "pystr \<Rightarrow> pystr \<Rightarrow> bool" where
  "startswith s p = (take (length p) s = p)"

fun contains :: "pystr \<Rightarrow> pystr \<Rightarrow> bool" where
  "contains [] p = (p = [])"
| "contains (c # s) p = (startswith (c # s) p \<or> contains s p)"

section \<open>utils.py: parse_phone\<close>

text \<open>
  \<^verbatim>\<open>
  def parse_phone(phone_str: str) -> str:
      if not phone_str:
          return ""
      digits = re.sub(r"\D", "", phone_str)
      if digits.startswith("380") and len(digits) == 11:
          return f"+{digits}"
      elif digits.startswith("80") and len(digits) == 10:
          return f"+3{digits}"
      elif digits.startswith("0") and len(digits) == 9:
          return f"+38{digits}"
      else:
          return f"+380{digits[-9:]}" if digits else ""
  \<close>
  \<open>re.sub(r"\D", "", s)\<close> deletes every character that is not a decimal digit. The slice
  \<open>digits[-9:]\<close> is the last nine characters, or all of them when there are fewer. No
  operation of the body can raise on a string, so the model has no error branch.
\<close>

definition last9 :: "pystr \<Rightarrow> pystr" where
  "last9 digits = drop (length digits - 9) digits"

definition parse_phone :: "pystr \<Rightarrow> pystr" where
  "parse_phone phone_str =
     (if phone_str = [] then []
      else
        let digits = filter isdecimal phone_str in
        if startswith digits (cp ''380'') \<and> length digits = 11 then cp ''+'' @ digits
        else if startswith digits (cp ''80'') \<and> length digits = 10 then cp ''+3'' @ digits
        else if startswith digits (cp ''0'') \<and> length digits = 9 then cp ''+38'' @ digits
        else if digits \<noteq> [] then cp ''+380'' @ last9 digits else [])"

text \<open>
  The canonical phone format of the specification and of the comment in the source,
  \<open>+380XXXXXXXXX\<close>: \<open>+380\<close> and exactly nine of the digits \<open>0\<close> to \<open>9\<close>.
\<close>

definition canonical_phone :: "pystr \<Rightarrow> bool" where
  "canonical_phone p =
     (length p = 13 \<and> take 4 p = cp ''+380'' \<and>
      list_all (\<lambda>c. 0x30 \<le> c \<and> c \<le> 0x39) (drop 4 p))"

section \<open>Exceptions\<close>

text \<open>
  The exceptions the code under study can raise. A function that may raise returns
  \<open>py_error + 'a\<close>, with \<open>Inl\<close> for the exception that leaves it.
\<close>

datatype py_error =
    ValueError
  | TypeError
  | OverflowError
  | ZeroDivisionError
  | DataError
  | IntegrityError
  | OperationalError

section \<open>The re module\<close>

text \<open>
  The patterns of the source use character classes, concatenation, alternation, the greedy
  quantifiers \<open>?\<close>, \<open>*\<close>, \<open>+\<close> and capturing groups. \<open>re\<close> is a backtracking matcher: a
  quantifier first tries to take as much as it can, an alternation tries its branches from
  left to right, and the first way that lets the whole pattern match wins.

  \<open>matches r (s, g)\<close> lists every way \<open>r\<close> can match a prefix of \<open>s\<close>, in the order the
  backtracking matcher tries them, each as the rest of the input with the groups captured
  so far; the head of the list is the match \<open>re\<close> reports. An iteration of \<open>*\<close> that
  consumes nothing is not repeated, which also bounds the iterations by the length of the
  input.
\<close>

type_synonym groups = "nat \<Rightarrow> pystr option"

datatype regex =
    Chr "nat \<Rightarrow> bool"
  | Seq regex regex
  | Alt regex regex
  | Opt regex
  | Star regex
  | Group nat regex

fun star_iter ::
  "nat \<Rightarrow> (pystr \<times> groups \<Rightarrow> (pystr \<times> groups) list) \<Rightarrow> pystr \<times> groups \<Rightarrow> (pystr \<times> groups) list"
where
  "star_iter 0 f st = [st]"
| "star_iter (Suc n) f st =
     concat (map (star_iter n f)
               (filter (\<lambda>st'. length (fst st') < length (fst st)) (f st))) @ [st]"

primrec matches :: "regex \<Rightarrow> pystr \<times> groups \<Rightarrow> (pystr \<times> groups) list" where
  "matches (Chr P) =
     (\<lambda>st. case fst st of [] \<Rightarrow> [] | c # s \<Rightarrow> if P c then [(s, snd st)] else [])"
| "matches (Seq a b) = (\<lambda>st. concat (map (matches b) (matches a st)))"
| "matches (Alt a b) = (\<lambda>st. matches a st @ matches b st)"
| "matches (Opt a) = (\<lambda>st. matches a st @ [st])"
| "matches (Star a) = (\<lambda>st. star_iter (length (fst st)) (matches a) st)"
| "matches (Group i a) =
     (\<lambda>st. map (\<lambda>st'. (fst st',
                        (snd st')(i \<mapsto> take (length (fst st) - length (fst st')) (fst st))))
               (matches a st))"

text \<open>
  \<open>re.search\<close> tries the pattern at every position from left to right and returns the
  first match; the result here is the map from group numbers to captured text (\<open>None\<close> for
  a group that took no part in the match).
\<close>

fun re_search :: "regex \<Rightarrow> pystr \<Rightarrow> groups option" where
  "re_search r [] =
     (case matches r ([], Map.empty) of [] \<Rightarrow> None | st # _ \<Rightarrow> Some (snd st))"
| "re_search r (c # s) =
     (case matches r (c # s, Map.empty) of [] \<Rightarrow> re_search r s | st # _ \<Rightarrow> Some (snd st))"

definition Plus :: "regex \<Rightarrow> regex" where
  "Plus r = Seq r (Star r)"

fun Lit :: "pystr \<Rightarrow> regex" where
  "Lit [] = Opt (Chr (\<lambda>c. False))"
| "Lit [c] = Chr (\<lambda>x. x = c)"
| "Lit (c # s) = Seq (Chr (\<lambda>x. x = c)) (Lit s)"

text \<open>The numbers of the groups of a pattern, for the proofs about what a match binds.\<close>

primrec group_numbers :: "regex \<Rightarrow> nat set" where
  "group_numbers (Chr P) = {}"
| "group_numbers (Seq a b) = group_numbers a \<union> group_numbers b"
| "group_numbers (Alt a b) = group_numbers a \<union> group_numbers b"
| "group_numbers (Opt a) = group_numbers a"
| "group_numbers (Star a) = group_numbers a"
| "group_numbers (Group i a) = insert i (group_numbers a)"

section \<open>int() on a string\<close>

text \<open>
  \<open>int(s)\<close> in base ten: whitespace around the literal is dropped, a sign may come first,
  and the rest must be decimal digits, with single underscores allowed between digits.
  Anything else raises \<open>ValueError\<close>; in particular whitespace inside the literal does.
  The result is unbounded. (The interpreter's configurable limit on the number of digits
  it converts is not modelled.)
\<close>

definition strip :: "pystr \<Rightarrow> pystr" where
  "strip s = rev (dropWhile isspace (rev (dropWhile isspace s)))"

definition digit_of :: "nat \<Rightarrow> nat" where
  "digit_of c = (case decimal_value c of None \<Rightarrow> 0 | Some v \<Rightarrow> v)"

definition digits_value :: "pystr \<Rightarrow> nat" where
  "digits_value ds = foldl (\<lambda>a c. 10 * a + digit_of c) 0 ds"

fun int_literal :: "pystr \<Rightarrow> bool" where
  "int_literal [] = False"
| "int_literal [c] = isdecimal c"
| "int_literal (c # u # r) =
     (isdecimal c \<and> (if u = 0x5F then int_literal r else int_literal (u # r)))"

definition py_int :: "pystr \<Rightarrow> py_error + int" where
  "py_int s =
     (let t = strip s;
          signed = (t \<noteq> [] \<and> (hd t = 0x2D \<or> hd t = 0x2B));
          body = (if signed then tl t else t);
          magnitude = int (digits_value (filter isdecimal body))
      in if \<not> int_literal body then Inl ValueError
         else if signed \<and> hd t = 0x2D then Inr (- magnitude)
         else Inr magnitude)"

section \<open>utils.py: parse_odometer\<close>

text \<open>
  \<^verbatim>\<open>
  def parse_odometer(odometer_str: str) -> int:
      if not odometer_str:
          return 0
      match = re.search(r"(\d+(?:\s*\d+)?)\s*(tis\.?|tys\.?|km)?", odometer_str.lower())
      if not match:
          return 0
      value = int(match.group(1))
      multiplier = match.group(2)
      if multiplier and "tis" in multiplier:
          value *= 1000
      return value
  \<close>
  where the source has, for \<open>tis\<close>, \<open>tys\<close> and \<open>km\<close>, the Cyrillic words
  U+0442 U+0438 U+0441 (Ukrainian "thousand"), U+0442 U+044B U+0441 (Russian "thousand")
  and U+043A U+043C.
\<close>

definition tis :: pystr where
  "tis = [0x442, 0x438, 0x441]"

definition tys :: pystr where
  "tys = [0x442, 0x44B, 0x441]"

definition km :: pystr where
  "km = [0x43A, 0x43C]"

definition odometer_re :: regex where
  "odometer_re =
     Seq (Group 1 (Seq (Plus (Chr isdecimal))
                       (Opt (Seq (Star (Chr isspace)) (Plus (Chr isdecimal))))))
         (Seq (Star (Chr isspace))
              (Opt (Group 2 (Alt (Seq (Lit tis) (Opt (Lit (cp ''.''))))
                            (Alt (Seq (Lit tys) (Opt (Lit (cp ''.''))))
                                 (Lit km))))))"

text \<open>
  \<open>str.lower\<close> belongs to the interpreter, and its full case mapping depends on the
  Unicode database and on context; \<open>parse_odometer\<close> takes it as the parameter \<open>lower\<close>.
  \<open>str_lower\<close> is that mapping on the Basic Latin and Cyrillic blocks (U+0041 to U+005A,
  U+0400 to U+042F), where it is a shift, and leaves every other code point alone; it is
  used to evaluate \<open>parse_odometer\<close> on texts written in these blocks.
\<close>

definition str_lower :: "pystr \<Rightarrow> pystr" where
  "str_lower =
     map (\<lambda>c. if 0x41 \<le> c \<and> c \<le> 0x5A then c + 32
               else if 0x410 \<le> c \<and> c \<le> 0x42F then c + 32
               else if 0x400 \<le> c \<and> c \<le> 0x40F then c + 80
               else c)"

definition parse_odometer :: "(pystr \<Rightarrow> pystr) \<Rightarrow> pystr \<Rightarrow> py_error + int" where
  "parse_odometer lower odometer_str =
     (if odometer_str = [] then Inr 0
      else
        case re_search odometer_re (lower odometer_str) of
          None \<Rightarrow> Inr 0
        | Some match \<Rightarrow>
            (case match 1 of
               None \<Rightarrow> Inl TypeError
             | Some group1 \<Rightarrow>
                 (case py_int group1 of
                    Inl e \<Rightarrow> Inl e
                  | Inr v \<Rightarrow>
                      (case match 2 of
                         None \<Rightarrow> Inr v
                       | Some multiplier \<Rightarrow>
                           if multiplier \<noteq> [] \<and> contains multiplier tis
                           then Inr (v * 1000) else Inr v))))"

section \<open>models.py and the database\<close>

text \<open>
  The table \<open>cars\<close> of models.py; the column \<open>url\<close> is declared unique. The primary key
  \<open>id\<close> is assigned by the database and plays no part below.
\<close>

record car =
  url :: pystr
  title :: pystr
  price_usd :: int
  odometer :: int
  username :: pystr
  phone_number :: "pystr option"
  image_url :: "pystr option"
  images_count :: int
  car_vin :: pystr
  car_number :: pystr
  datetime_found :: nat

text \<open>
  The database is the committed content of the table and whether the server answers. A
  session works on its own copy of the table: objects added to the session are pending
  until a commit flushes them into that copy, and the copy becomes the committed table
  only when every row went in. A commit with nothing pending sends no statement and
  succeeds whatever the state of the server. A commit with pending rows fails when the
  server does not answer, when a value of one of the \<open>Integer\<close> columns (\<open>price_usd\<close>,
  \<open>odometer\<close>, \<open>images_count\<close>) does not fit the 32 bits of the column, or when the URL of
  a row is in the table already, which violates the unique constraint. Other rejections by
  the server are not modelled.
\<close>

record database =
  rows :: "car list"
  up :: bool

record session =
  txn :: "car list"
  pending :: "car list"

datatype event =
    SessionCommit
  | SessionRollback
  | SessionClose
  | LogError string py_error

definition fits_integer_column :: "int \<Rightarrow> bool" where
  "fits_integer_column v = (- (2 ^ 31) \<le> v \<and> v < 2 ^ 31)"

definition row_in_range :: "car \<Rightarrow> bool" where
  "row_in_range c =
     (fits_integer_column (price_usd c) \<and> fits_integer_column (odometer c) \<and>
      fits_integer_column (images_count c))"

fun insert_rows :: "car list \<Rightarrow> car list \<Rightarrow> py_error + car list" where
  "insert_rows table [] = Inr table"
| "insert_rows table (c # cs) =
     (if url c \<in> url ` set table then Inl IntegrityError
      else insert_rows (table @ [c]) cs)"

definition add_all :: "session \<Rightarrow> car list \<Rightarrow> session" where
  "add_all s cars = s\<lparr>pending := pending s @ cars\<rparr>"

definition session_commit :: "database \<times> session \<Rightarrow> py_error + database \<times> session" where
  "session_commit st =
     (case st of (d, s) \<Rightarrow>
        if pending s = [] then Inr (d, s)
        else if \<not> up d then Inl OperationalError
        else if \<not> list_all row_in_range (pending s) then Inl DataError
        else case insert_rows (txn s) (pending s) of
               Inl e \<Rightarrow> Inl e
             | Inr t \<Rightarrow> Inr (d\<lparr>rows := t\<rparr>, \<lparr>txn = t, pending = []\<rparr>))"

text \<open>\<open>select(Car.url).where(Car.url.in_(urls))\<close>: the stored URLs that are among \<open>urls\<close>.\<close>

definition execute_select_urls :: "database \<times> session \<Rightarrow> pystr list \<Rightarrow> py_error + pystr list" where
  "execute_select_urls st urls =
     (case st of (d, s) \<Rightarrow>
        if \<not> up d then Inl OperationalError
        else Inr (filter (\<lambda>u. u \<in> set urls) (map url (txn s))))"

section \<open>database.py: get_db and save_cars\<close>

text \<open>
  \<^verbatim>\<open>
  @asynccontextmanager
  async def get_db() -> AsyncSession:
      session = async_session()
      try:
          yield session
          await session.commit()
      except Exception as e:
          await session.rollback()
          logger.error(f"Database error: {str(e)}")
          raise
      finally:
          await session.close()
  \<close>
  The body of the \<open>async with\<close> block is the argument \<open>body\<close>; it returns its result or
  the exception it raised, the state it left and the events it caused. \<open>get_db\<close> returns
  what leaves the block, the database afterwards and all events in order. A rollback
  leaves the committed table as it is.
\<close>

definition get_db ::
  "database \<Rightarrow> (database \<times> session \<Rightarrow> (py_error + 'a) \<times> (database \<times> session) \<times> event list)
     \<Rightarrow> (py_error + 'a) \<times> database \<times> event list"
where
  "get_db d body =
     (case body (d, \<lparr>txn = rows d, pending = []\<rparr>) of (r, st, evs) \<Rightarrow>
        (case r of
           Inl e \<Rightarrow>
             (Inl e, fst st, evs @ [SessionRollback, LogError ''Database error'' e, SessionClose])
         | Inr x \<Rightarrow>
             (case session_commit st of
                Inl e \<Rightarrow>
                  (Inl e, fst st,
                   evs @ [SessionCommit, SessionRollback, LogError ''Database error'' e,
                          SessionClose])
              | Inr st' \<Rightarrow> (Inr x, fst st', evs @ [SessionCommit, SessionClose]))))"

text \<open>
  \<^verbatim>\<open>
  async def save_cars(cars: list[Car]):
      try:
          async with get_db() as session:
              session.add_all(cars)
              await session.commit()
      except Exception as e:
          logger.error(f"Error saving cars: {str(e)}")
  \<close>
  \<open>save_cars\<close> returns nothing and catches every exception: the model returns the
  database afterwards and the events.
\<close>

definition save_cars_body ::
  "car list \<Rightarrow> database \<times> session \<Rightarrow> (py_error + unit) \<times> (database \<times> session) \<times> event list"
where
  "save_cars_body cars st =
     (let st1 = (fst st, add_all (snd st) cars) in
      case session_commit st1 of
        Inl e \<Rightarrow> (Inl e, st1, [SessionCommit])
      | Inr st2 \<Rightarrow> (Inr (), st2, [SessionCommit]))"

definition save_cars :: "database \<Rightarrow> car list \<Rightarrow> database \<times> event list" where
  "save_cars d cars =
     (case get_db d (save_cars_body cars) of (r, d', evs) \<Rightarrow>
        (case r of
           Inl e \<Rightarrow> (d', evs @ [LogError ''Error saving cars'' e])
         | Inr _ \<Rightarrow> (d', evs)))"

section \<open>scraper.py: bulk_check_existence and the filter of process_page\<close>

text \<open>
  A \<open>dict\<close> keeps its keys in the order of their first insertion; storing under a key
  that is present replaces the value and keeps the position. It is a list of pairs with
  distinct keys.
\<close>

fun dict_set :: "('k \<times> 'v) list \<Rightarrow> 'k \<Rightarrow> 'v \<Rightarrow> ('k \<times> 'v) list" where
  "dict_set [] k v = [(k, v)]"
| "dict_set ((k', v') # d) k v =
     (if k' = k then (k, v) # d else (k', v') # dict_set d k v)"

definition dict_comprehension :: "('a \<Rightarrow> 'k \<times> 'v) \<Rightarrow> 'a list \<Rightarrow> ('k \<times> 'v) list" where
  "dict_comprehension f xs = foldl (\<lambda>d x. dict_set d (fst (f x)) (snd (f x))) [] xs"

text \<open>
  \<^verbatim>\<open>
  async def bulk_check_existence(urls: List[str]) -> Dict[str, bool]:
      try:
          async with get_db() as session:
              result = await session.execute(select(Car.url).where(Car.url.in_(urls)))
              existing_urls = {row[0] for row in result.fetchall()}
          return {url: url in existing_urls for url in urls}
      except Exception as e:
          logger.error(f"Error in bulk_check_existence: {str(e)}")
          return {url: False for url in urls}
  \<close>
  and, in \<open>process_page\<close>,
  \<^verbatim>\<open>
  existence_results = await bulk_check_existence(car_links)
  new_car_links = [url for url, exists in existence_results.items() if not exists]
  \<close>
\<close>

definition bulk_check_body ::
  "pystr list \<Rightarrow> database \<times> session
     \<Rightarrow> (py_error + pystr set) \<times> (database \<times> session) \<times> event list"
where
  "bulk_check_body urls st =
     (case execute_select_urls st urls of
        Inl e \<Rightarrow> (Inl e, st, [])
      | Inr result \<Rightarrow> (Inr (set result), st, []))"

definition bulk_check_existence ::
  "database \<Rightarrow> pystr list \<Rightarrow> (pystr \<times> bool) list \<times> event list"
where
  "bulk_check_existence d urls =
     (case get_db d (bulk_check_body urls) of (r, d', evs) \<Rightarrow>
        (case r of
           Inr existing_urls \<Rightarrow>
             (dict_comprehension (\<lambda>url. (url, url \<in> existing_urls)) urls, evs)
         | Inl e \<Rightarrow>
             (dict_comprehension (\<lambda>url. (url, False)) urls,
              evs @ [LogError ''Error in bulk_check_existence'' e])))"

definition new_car_links :: "database \<Rightarrow> pystr list \<Rightarrow> pystr list" where
  "new_car_links d car_links =
     (let existence_results = fst (bulk_check_existence d car_links)
      in map fst (filter (\<lambda>item. \<not> snd item) existence_results))"

section \<open>scraper.py: fetch\<close>

text \<open>
  \<^verbatim>\<open>
  async def fetch(self, url: str) -> Optional[str]:
      for attempt in range(settings.RETRY_ATTEMPTS):
          headers = {"User-Agent": random.choice(self.headers["User-Agent"])}
          try:
              await asyncio.sleep(random.uniform(0.5, 1.5))
              async with self.session.get(url, headers=headers,
                                          timeout=settings.REQUEST_TIMEOUT) as response:
                  if response.status == 200:
                      return await response.text()
                  elif response.status == 429:  # Rate limit
                      await asyncio.sleep(5 * (attempt + 1))
          except Exception as e:
              logger.error(f"Attempt {attempt + 1} failed for {url}: {e}")
      return None
  \<close>
  The network is a function from the attempt number to what that request meets: an
  exception out of \<open>get\<close> (a transport fault or the timeout), or a response with its status
  and the outcome of reading its text. The result is the body or \<open>None\<close>, with the
  observable steps in order: the pacing sleep, the request, a backoff sleep with its
  number of seconds, a logged failure with its attempt number. The length of the pacing
  sleep and the choice of the header are random and not part of the model.
\<close>

datatype response_outcome =
    TransportFault
  | Response nat "py_error + pystr"

datatype fetch_event =
    PacingSleep
  | Get nat
  | BackoffSleep nat
  | AttemptFailed nat

fun fetch_attempts ::
  "(nat \<Rightarrow> response_outcome) \<Rightarrow> nat list \<Rightarrow> pystr option \<times> fetch_event list"
where
  "fetch_attempts net [] = (None, [])"
| "fetch_attempts net (attempt # rest) =
     (case net attempt of
        TransportFault \<Rightarrow>
          (case fetch_attempts net rest of (r, evs) \<Rightarrow>
             (r, [PacingSleep, Get attempt, AttemptFailed (attempt + 1)] @ evs))
      | Response status text \<Rightarrow>
          if status = 200 then
            (case text of
               Inr body \<Rightarrow> (Some body, [PacingSleep, Get attempt])
             | Inl e \<Rightarrow>
                 (case fetch_attempts net rest of (r, evs) \<Rightarrow>
                    (r, [PacingSleep, Get attempt, AttemptFailed (attempt + 1)] @ evs)))
          else if status = 429 then
            (case fetch_attempts net rest of (r, evs) \<Rightarrow>
               (r, [PacingSleep, Get attempt, BackoffSleep (5 * (attempt + 1))] @ evs))
          else
            (case fetch_attempts net rest of (r, evs) \<Rightarrow>
               (r, [PacingSleep, Get attempt] @ evs)))"

definition fetch :: "int \<Rightarrow> (nat \<Rightarrow> response_outcome) \<Rightarrow> pystr option \<times> fetch_event list" where
  "fetch RETRY_ATTEMPTS net = fetch_attempts net [0..<nat RETRY_ATTEMPTS]"

text \<open>What one attempt that does not return a body leaves in the trace.\<close>

definition failed_attempt_events :: "nat \<Rightarrow> response_outcome \<Rightarrow> fetch_event list" where
  "failed_attempt_events attempt out =
     [PacingSleep, Get attempt] @
     (case out of
        TransportFault \<Rightarrow> [AttemptFailed (attempt + 1)]
      | Response status text \<Rightarrow>
          if status = 200 then [AttemptFailed (attempt + 1)]
          else if status = 429 then [BackoffSleep (5 * (attempt + 1))]
          else [])"

definition delivers :: "response_outcome \<Rightarrow> bool" where
  "delivers out = (case out of Response status (Inr body) \<Rightarrow> status = 200 | _ \<Rightarrow> False)"

text \<open>A row with the given URL and empty or zero columns otherwise, for examples.\<close>

abbreviation bare_car :: "pystr \<Rightarrow> car" where
  "bare_car u \<equiv>
     \<lparr>url = u, title = [], price_usd = 0, odometer = 0, username = [], phone_number = None,
      image_url = None, images_count = 0, car_vin = [], car_number = [], datetime_found = 0\<rparr>"

section \<open>Floating point\<close>

text \<open>
  A Python \<open>float\<close> is an IEEE 754 double. The finite double with the value \<open>m * 2 ^ e\<close>
  is \<open>Finite m e\<close> (different pairs may stand for the same double; every operation below
  depends on the value only); an overflowing multiplication gives an infinity. All
  arithmetic rounds the exact result to the nearest double, ties to the even significand.

  \<open>round_double n d\<close> is the double nearest to the fraction \<open>n / d\<close> (\<open>d\<close> positive): with
  \<open>2 ^ k \<le> \<bar>n\<bar> / d < 2 ^ (k + 1)\<close> the significand has 53 bits at the exponent
  \<open>e = k - 52\<close>, but no exponent below \<open>- 1074\<close> (the subnormal numbers), and a result of
  \<open>2 ^ 1024\<close> or more overflows. \<open>rne n d\<close> is the integer nearest to \<open>n / d\<close>, ties to
  even; \<open>bit_length\<close> is the number of binary digits.
\<close>

fun bit_length :: "nat \<Rightarrow> nat" where
  "bit_length n = (if n = 0 then 0 else Suc (bit_length (n div 2)))"

definition floor_log2 :: "nat \<Rightarrow> nat \<Rightarrow> int" where
  "floor_log2 n d =
     (let k = int (bit_length n) - int (bit_length d)
      in if int d * 2 ^ nat k \<le> int n * 2 ^ nat (- k) then k else k - 1)"

definition rne :: "int \<Rightarrow> int \<Rightarrow> int" where
  "rne n d =
     (let q = n div d; r = n mod d
      in if 2 * r < d then q else if d < 2 * r then q + 1 else if even q then q else q + 1)"

datatype pyfloat = Finite int int | Infinite

definition round_double :: "int \<Rightarrow> int \<Rightarrow> pyfloat" where
  "round_double n d =
     (if n = 0 then Finite 0 0
      else
        let e = max (floor_log2 (nat \<bar>n\<bar>) (nat d) - 52) (- 1074);
            m = rne (\<bar>n\<bar> * 2 ^ nat (- e)) (d * 2 ^ nat e)
        in if 2 ^ 1024 \<le> m * 2 ^ nat e then Infinite else Finite (sgn n * m) e)"

text \<open>
  \<open>float(n)\<close>, as the mixed operations \<open>int * float\<close> and \<open>int / float\<close> apply it to their
  integer operand: correctly rounded, \<open>OverflowError\<close> when the integer is too large.
\<close>

definition float_of_int :: "int \<Rightarrow> py_error + pyfloat" where
  "float_of_int n =
     (case round_double n 1 of
        Infinite \<Rightarrow> Inl OverflowError
      | Finite m e \<Rightarrow> Inr (Finite m e))"

text \<open>
  Multiplication overflows to an infinity without raising; division raises
  \<open>ZeroDivisionError\<close> on a zero divisor. Infinite operands do not occur in the code under
  study (\<open>float_of_int\<close> raises first); they give an infinity here.
\<close>

fun float_mul :: "pyfloat \<Rightarrow> pyfloat \<Rightarrow> pyfloat" where
  "float_mul (Finite m1 e1) (Finite m2 e2) =
     round_double (m1 * m2 * 2 ^ nat (e1 + e2)) (2 ^ nat (- (e1 + e2)))"
| "float_mul _ _ = Infinite"

fun float_truediv :: "pyfloat \<Rightarrow> pyfloat \<Rightarrow> py_error + pyfloat" where
  "float_truediv (Finite m1 e1) (Finite m2 e2) =
     (if m2 = 0 then Inl ZeroDivisionError
      else Inr (round_double (sgn m2 * m1 * 2 ^ nat (e1 - e2)) (\<bar>m2\<bar> * 2 ^ nat (e2 - e1))))"
| "float_truediv _ _ = Inr Infinite"

text \<open>\<open>int(x)\<close> truncates towards zero and raises \<open>OverflowError\<close> on an infinity.\<close>

fun int_of_float :: "pyfloat \<Rightarrow> py_error + int" where
  "int_of_float (Finite m e) =
     Inr (if 0 \<le> e then m * 2 ^ nat e else sgn m * (\<bar>m\<bar> div 2 ^ nat (- e)))"
| "int_of_float Infinite = Inl OverflowError"

text \<open>The literals \<open>1.1\<close> and \<open>41.22\<close> of the source: the doubles nearest to 11/10 and 4122/100.\<close>

definition literal_1_1 :: pyfloat where
  "literal_1_1 = round_double 11 10"

definition literal_41_22 :: pyfloat where
  "literal_41_22 = round_double 4122 100"

section \<open>utils.py: parse_price\<close>

text \<open>
  \<^verbatim>\<open>
  def parse_price(price_text: str) -> int:
      if not price_text or price_text == "0":
          return 0
      clean_price = price_text.strip().replace(" ", "")
      number_match = re.search(r"(\d+)", clean_price)
      if not number_match:
          return 0
      try:
          amount = int(number_match.group(1))
          if EURO in clean_price:
              return int(amount * 1.1)  # EUR to USD
          elif HRN in clean_price:
              return int(amount / 41.22)  # UAH to USD
          else:
              return amount  # Assume USD
      except (ValueError, TypeError):
          return 0
  \<close>
  where \<open>EURO\<close> is the one-character string U+20AC and \<open>HRN\<close> the Cyrillic abbreviation
  U+0433 U+0440 U+043D of the hryvnia. The \<open>try\<close> block is \<open>convert_price\<close>; of the
  exceptions it can raise, \<open>parse_price\<close> catches \<open>ValueError\<close> and \<open>TypeError\<close> and lets
  the others through.
\<close>

definition euro :: pystr where
  "euro = [0x20AC]"

definition hrn :: pystr where
  "hrn = [0x433, 0x440, 0x43D]"

definition price_re :: regex where
  "price_re = Group 1 (Plus (Chr isdecimal))"

text \<open>The expressions \<open>int(amount * 1.1)\<close> and \<open>int(amount / 41.22)\<close>.\<close>

definition eur_to_usd :: "int \<Rightarrow> py_error + int" where
  "eur_to_usd amount =
     (case float_of_int amount of
        Inl e \<Rightarrow> Inl e
      | Inr x \<Rightarrow> int_of_float (float_mul x literal_1_1))"

definition uah_to_usd :: "int \<Rightarrow> py_error + int" where
  "uah_to_usd amount =
     (case float_of_int amount of
        Inl e \<Rightarrow> Inl e
      | Inr x \<Rightarrow>
          (case float_truediv x literal_41_22 of
             Inl e \<Rightarrow> Inl e
           | Inr y \<Rightarrow> int_of_float y))"

definition convert_price :: "pystr \<Rightarrow> groups \<Rightarrow> py_error + int" where
  "convert_price clean_price number_match =
     (case number_match 1 of
        None \<Rightarrow> Inl TypeError
      | Some group1 \<Rightarrow>
          (case py_int group1 of
             Inl e \<Rightarrow> Inl e
           | Inr amount \<Rightarrow>
               if contains clean_price euro then eur_to_usd amount
               else if contains clean_price hrn then uah_to_usd amount
               else Inr amount))"

text \<open>\<open>price_text.strip().replace(" ", "")\<close>.\<close>

definition clean_text :: "pystr \<Rightarrow> pystr" where
  "clean_text price_text = filter (\<lambda>c. c \<noteq> 0x20) (strip price_text)"

definition parse_price :: "pystr \<Rightarrow> py_error + int" where
  "parse_price price_text =
     (if price_text = [] \<or> price_text = cp ''0'' then Inr 0
      else
        let clean_price = clean_text price_text in
        case re_search price_re clean_price of
          None \<Rightarrow> Inr 0
        | Some number_match \<Rightarrow>
            (case convert_price clean_price number_match of
               Inl ValueError \<Rightarrow> Inr 0
             | Inl TypeError \<Rightarrow> Inr 0
             | Inl e \<Rightarrow> Inl e
             | Inr v \<Rightarrow> Inr v))"

text \<open>
  The first maximal run of decimal digits of a text, empty when the text has no digit, and
  the number a run of digits denotes: what \<open>(\d+)\<close> captures and what \<open>int\<close> makes of it.
\<close>

definition digit_run :: "pystr \<Rightarrow> pystr" where
  "digit_run s = takeWhile isdecimal (dropWhile (\<lambda>c. \<not> isdecimal c) s)"

definition amount_of :: "pystr \<Rightarrow> int" where
  "amount_of s = int (digits_value (digit_run s))"

section \<open>Facts about the character tables\<close>

lemma isdecimal_ascii [simp]:
  "isdecimal 48" "isdecimal 49" "isdecimal 50" "isdecimal 51" "isdecimal 52"
  "isdecimal 53" "isdecimal 54" "isdecimal 55" "isdecimal 56" "isdecimal 57"
  by (simp_all add: isdecimal_def decimal_value_def decimal_zeros_def)

lemma not_isdecimal_small [simp]: "c < 48 \<Longrightarrow> \<not> isdecimal c"
  by (simp add: isdecimal_def decimal_value_def decimal_zeros_def)

lemma isdecimal_low: "c < 0x660 \<Longrightarrow> isdecimal c \<longleftrightarrow> 48 \<le> c \<and> c < 58"
  by (simp add: isdecimal_def decimal_value_def decimal_zeros_def)

lemma isdecimal_numeral [simp]:
  "numeral k < (0x660::nat) \<Longrightarrow>
     isdecimal (numeral k) \<longleftrightarrow> 48 \<le> (numeral k::nat) \<and> (numeral k::nat) < 58"
  by (rule isdecimal_low)

lemma isspace_numeral [simp]:
  "isspace (numeral k) \<longleftrightarrow>
     numeral k \<in> set [0x9, 0xA, 0xB, 0xC, 0xD, 0x1C, 0x1D, 0x1E, 0x1F, 0x20, 0x85, 0xA0,
                0x1680, 0x2000, 0x2001, 0x2002, 0x2003, 0x2004, 0x2005, 0x2006,
                0x2007, 0x2008, 0x2009, 0x200A, 0x2028, 0x2029, 0x202F, 0x205F,
                0x3000::nat]"
  by (simp only: isspace_def)

lemma isdecimal_not_isspace: "isdecimal c \<Longrightarrow> \<not> isspace c"
  by (auto simp: isspace_def isdecimal_def decimal_value_def decimal_zeros_def)

section \<open>parse_phone\<close>

lemma parse_phone_Nil_iff: "parse_phone s = [] \<longleftrightarrow> filter isdecimal s = []"
  by (auto simp: parse_phone_def Let_def cp_def)

lemma parse_phone_hd:
  "filter isdecimal s \<noteq> [] \<Longrightarrow> hd (parse_phone s) = 43"
  by (auto simp: parse_phone_def Let_def cp_def)

text \<open>
  Claim C10: \<open>parse_phone\<close> returns the empty string exactly when its input contains no
  digit character; for an input with at least one digit the result is not empty and its
  first character is \<open>+\<close> (code point 43).
\<close>

theorem parse_phone_empty_iff_no_digit:
  "(parse_phone s = [] \<longleftrightarrow> \<not> (\<exists>c \<in> set s. isdecimal c)) \<and>
   ((\<exists>c \<in> set s. isdecimal c) \<longrightarrow>
      parse_phone s \<noteq> [] \<and> hd (parse_phone s) = of_char CHR ''+'')"
proof -
  have d: "filter isdecimal s = [] \<longleftrightarrow> \<not> (\<exists>c \<in> set s. isdecimal c)"
    by (simp add: filter_empty_conv)
  show ?thesis
    using parse_phone_Nil_iff [of s] parse_phone_hd [of s] d by auto
qed

theorem parse_phone_empty_iff_no_digit_witness:
  "(\<exists>c \<in> set (cp ''(050) 123-45-67''). isdecimal c) \<and>
   parse_phone (cp ''(050) 123-45-67'') = cp ''+380501234567'' \<and>
   parse_phone (cp ''n/a'') = []"
proof -
  have a: "parse_phone (cp ''(050) 123-45-67'') = cp ''+380501234567''"
    by (simp add: parse_phone_def cp_def startswith_def last9_def)
  have b: "\<exists>c \<in> set (cp ''(050) 123-45-67''). isdecimal c"
    by (simp add: cp_def)
  have c: "\<not> (\<exists>c \<in> set (cp ''n/a''). isdecimal c)"
    by (simp add: cp_def isdecimal_def decimal_value_def decimal_zeros_def)
  from parse_phone_empty_iff_no_digit [of "cp ''n/a''"] c
  have "parse_phone (cp ''n/a'') = []" by blast
  moreover from parse_phone_empty_iff_no_digit [of "cp ''(050) 123-45-67''"] b
  have "parse_phone (cp ''(050) 123-45-67'') \<noteq> []" by blast
  ultimately show ?thesis using a b by simp
qed

text \<open>
  Claim C4 fails on the code. The comment above the branches promises the format
  \<open>+380XXXXXXXXX\<close>, and the last branch delivers it for the numbers as they are written
  (twelve digits beginning 380, eleven beginning 80, ten beginning 0). The three prefix
  branches test for 11, 10 and 9 digits, one less than such numbers have: a text they
  accept comes out as \<open>+380\<close> and eight digits.
\<close>

theorem parse_phone_prefix_rule_not_canonical:
  "parse_phone (cp ''38012345678'') = cp ''+38012345678'' \<and>
   \<not> canonical_phone (parse_phone (cp ''38012345678'')) \<and>
   parse_phone (cp ''380501234567'') = cp ''+380501234567'' \<and>
   canonical_phone (parse_phone (cp ''380501234567''))"
  by (simp add: parse_phone_def cp_def startswith_def last9_def canonical_phone_def)

section \<open>parse_odometer\<close>

lemmas odometer_eval =
  parse_odometer_def odometer_re_def Plus_def cp_def tis_def tys_def km_def str_lower_def
  py_int_def strip_def digits_value_def digit_of_def startswith_def
  decimal_value_def decimal_zeros_def

text \<open>
  Claim C2 fails on the code: the pattern accepts the Russian word for "thousand"
  (U+0442 U+044B U+0441) as a unit marker, as the comment above it says, but the
  multiplication is guarded by a test for the Ukrainian word only. On the text
  "95 tys. km" the code returns 95, where it returns 95000 on "95 tis. km".
\<close>

theorem parse_odometer_russian_thousand:
  "parse_odometer str_lower (cp ''95 '' @ tys @ cp ''. '' @ km) = Inr 95 \<and>
   parse_odometer str_lower (cp ''95 '' @ tis @ cp ''. '' @ km) = Inr 95000"
  by (simp add: odometer_eval)

text \<open>
  Claim C3 fails on the code: the first group of the pattern accepts two digit runs
  separated by whitespace, and \<open>int\<close> raises \<open>ValueError\<close> on such a text. Nothing in
  \<open>parse_odometer\<close> catches it: on "120 000 km" the call raises.
\<close>

theorem parse_odometer_raises_on_spaced_number:
  "parse_odometer str_lower (cp ''120 000 '' @ km) = Inl ValueError"
  by (simp add: odometer_eval)

section \<open>The existence filter\<close>

lemma dict_set_keys: "set (map fst (dict_set d k v)) = insert k (set (map fst d))"
  by (induction d k v rule: dict_set.induct) auto

lemma dict_set_distinct: "distinct (map fst d) \<Longrightarrow> distinct (map fst (dict_set d k v))"
proof (induction d k v rule: dict_set.induct)
  case (1 k v)
  then show ?case by simp
next
  case (2 k' v' d k v)
  have "set (map fst (dict_set d k v)) = insert k (set (map fst d))"
    by (rule dict_set_keys)
  with 2 show ?case by auto
qed

lemma dict_set_values:
  "\<forall>item \<in> set d. snd item = g (fst item) \<Longrightarrow>
   \<forall>item \<in> set (dict_set d k (g k)). snd item = g (fst item)"
  by (induction d k "g k" rule: dict_set.induct) auto

lemma dict_fold_invariant:
  "distinct (map fst d) \<Longrightarrow> \<forall>item \<in> set d. snd item = g (fst item) \<Longrightarrow>
   (let d' = foldl (\<lambda>d x. dict_set d (fst (x, g x)) (snd (x, g x))) d xs
    in distinct (map fst d') \<and> set (map fst d') = set (map fst d) \<union> set xs \<and>
       (\<forall>item \<in> set d'. snd item = g (fst item)))"
proof (induction xs arbitrary: d)
  case Nil
  then show ?case by simp
next
  case (Cons x xs)
  have a: "distinct (map fst (dict_set d x (g x)))"
    using Cons.prems(1) by (rule dict_set_distinct)
  have b: "\<forall>item \<in> set (dict_set d x (g x)). snd item = g (fst item)"
    using Cons.prems(2) by (rule dict_set_values)
  have c: "set (map fst (dict_set d x (g x))) = insert x (set (map fst d))"
    by (rule dict_set_keys)
  from Cons.IH [OF a b] c show ?case by (simp add: Let_def)
qed

lemma dict_comprehension_graph:
  "distinct (map fst (dict_comprehension (\<lambda>x. (x, g x)) xs)) \<and>
   set (map fst (dict_comprehension (\<lambda>x. (x, g x)) xs)) = set xs \<and>
   (\<forall>item \<in> set (dict_comprehension (\<lambda>x. (x, g x)) xs). snd item = g (fst item))"
  using dict_fold_invariant [of "[]" g xs] by (simp add: dict_comprehension_def Let_def)

lemma filter_dict_keys:
  assumes "distinct (map fst d)" "\<forall>item \<in> set d. snd item = g (fst item)"
  shows "distinct (map fst (filter (\<lambda>item. \<not> snd item) d)) \<and>
         set (map fst (filter (\<lambda>item. \<not> snd item) d)) = {k \<in> set (map fst d). \<not> g k}"
proof
  show "distinct (map fst (filter (\<lambda>item. \<not> snd item) d))"
    using assms(1) by (rule distinct_map_filter)
  show "set (map fst (filter (\<lambda>item. \<not> snd item) d)) = {k \<in> set (map fst d). \<not> g k}"
    using assms(2) by force
qed

lemma get_db_bulk_check_up:
  "up d \<Longrightarrow>
   get_db d (bulk_check_body urls) =
     (Inr (set urls \<inter> url ` set (rows d)), d, [SessionCommit, SessionClose])"
  by (auto simp: get_db_def bulk_check_body_def execute_select_urls_def session_commit_def)

lemma get_db_bulk_check_down:
  "\<not> up d \<Longrightarrow>
   get_db d (bulk_check_body urls) =
     (Inl OperationalError, d,
      [SessionRollback, LogError ''Database error'' OperationalError, SessionClose])"
  by (simp add: get_db_def bulk_check_body_def execute_select_urls_def)

text \<open>
  Claim C5: when the lookup succeeds, the URLs that pass the filter are exactly the
  candidate URLs that the store does not hold, each once; when the lookup fails, the
  dictionary marks every candidate as not existing, the failure is logged, and all
  candidates pass.
\<close>

theorem new_car_links_is_set_difference:
  "(up d \<longrightarrow>
      set (new_car_links d urls) = set urls - url ` set (rows d) \<and>
      distinct (new_car_links d urls)) \<and>
   (\<not> up d \<longrightarrow>
      set (new_car_links d urls) = set urls \<and>
      distinct (new_car_links d urls) \<and>
      set (map fst (fst (bulk_check_existence d urls))) = set urls \<and>
      (\<forall>item \<in> set (fst (bulk_check_existence d urls)). snd item = False) \<and>
      LogError ''Error in bulk_check_existence'' OperationalError
        \<in> set (snd (bulk_check_existence d urls)))"
proof (intro conjI impI)
  assume u: "up d"
  define g where "g = (\<lambda>u. u \<in> set urls \<inter> url ` set (rows d))"
  have b: "fst (bulk_check_existence d urls) = dict_comprehension (\<lambda>url. (url, g url)) urls"
    by (simp add: bulk_check_existence_def get_db_bulk_check_up [OF u] g_def)
  note gr = dict_comprehension_graph [of g urls]
  from filter_dict_keys [of "dict_comprehension (\<lambda>url. (url, g url)) urls" g] gr
  have f: "distinct (new_car_links d urls) \<and>
           set (new_car_links d urls) = {k \<in> set urls. \<not> g k}"
    by (simp add: new_car_links_def b Let_def)
  from f show "set (new_car_links d urls) = set urls - url ` set (rows d)"
    by (auto simp: g_def)
  from f show "distinct (new_car_links d urls)" by simp
next
  assume u: "\<not> up d"
  define g where "g = (\<lambda>u::pystr. False)"
  have b: "fst (bulk_check_existence d urls) = dict_comprehension (\<lambda>url. (url, g url)) urls"
    by (simp add: bulk_check_existence_def get_db_bulk_check_down [OF u] g_def)
  note gr = dict_comprehension_graph [of g urls]
  from filter_dict_keys [of "dict_comprehension (\<lambda>url. (url, g url)) urls" g] gr
  have f: "distinct (new_car_links d urls) \<and>
           set (new_car_links d urls) = {k \<in> set urls. \<not> g k}"
    by (simp add: new_car_links_def b Let_def)
  from f show "set (new_car_links d urls) = set urls" by (simp add: g_def)
  from f show "distinct (new_car_links d urls)" by simp
  from gr show "set (map fst (fst (bulk_check_existence d urls))) = set urls"
    by (simp add: b)
  from gr show "\<forall>item \<in> set (fst (bulk_check_existence d urls)). snd item = False"
    by (simp add: b g_def)
  show "LogError ''Error in bulk_check_existence'' OperationalError
          \<in> set (snd (bulk_check_existence d urls))"
    by (simp add: bulk_check_existence_def get_db_bulk_check_down [OF u])
qed
theorem new_car_links_is_set_difference_witness:
  "set (new_car_links \<lparr>rows = [bare_car (cp ''/auto_1.html'')], up = True\<rparr>
          [cp ''/auto_1.html'', cp ''/auto_2.html'', cp ''/auto_3.html'', cp ''/auto_2.html''])
     = {cp ''/auto_2.html'', cp ''/auto_3.html''} \<and>
   set (new_car_links \<lparr>rows = [bare_car (cp ''/auto_1.html'')], up = False\<rparr>
          [cp ''/auto_1.html'', cp ''/auto_2.html'', cp ''/auto_3.html'', cp ''/auto_2.html''])
     = {cp ''/auto_1.html'', cp ''/auto_2.html'', cp ''/auto_3.html''}"
proof -
  let ?urls = "[cp ''/auto_1.html'', cp ''/auto_2.html'', cp ''/auto_3.html'', cp ''/auto_2.html'']"
  have a: "set (new_car_links \<lparr>rows = [bare_car (cp ''/auto_1.html'')], up = True\<rparr> ?urls)
             = set ?urls - url ` set [bare_car (cp ''/auto_1.html'')]"
    using new_car_links_is_set_difference
            [of "\<lparr>rows = [bare_car (cp ''/auto_1.html'')], up = True\<rparr>" ?urls]
    by simp
  have b: "set (new_car_links \<lparr>rows = [bare_car (cp ''/auto_1.html'')], up = False\<rparr> ?urls)
             = set ?urls"
    using new_car_links_is_set_difference
            [of "\<lparr>rows = [bare_car (cp ''/auto_1.html'')], up = False\<rparr>" ?urls]
    by simp
  show ?thesis
    unfolding a b by (auto simp: cp_def)
qed

section \<open>fetch\<close>

lemma fetch_attempts_exhausted:
  "\<forall>i \<in> set xs. \<not> delivers (net i) \<Longrightarrow>
   fetch_attempts net xs = (None, concat (map (\<lambda>i. failed_attempt_events i (net i)) xs))"
proof (induction xs)
  case Nil
  then show ?case by simp
next
  case (Cons i xs)
  then have ih: "fetch_attempts net xs
                   = (None, concat (map (\<lambda>i. failed_attempt_events i (net i)) xs))"
    and nd: "\<not> delivers (net i)"
    by simp_all
  from nd show ?case
    by (cases "net i")
       (auto simp: ih failed_attempt_events_def delivers_def split: sum.splits)
qed

lemma fetch_attempts_delivered:
  "\<forall>i \<in> set xs. \<not> delivers (net i) \<Longrightarrow> net k = Response 200 (Inr body) \<Longrightarrow>
   fetch_attempts net (xs @ k # ys)
     = (Some body,
        concat (map (\<lambda>i. failed_attempt_events i (net i)) xs) @ [PacingSleep, Get k])"
proof (induction xs)
  case Nil
  then show ?case by simp
next
  case (Cons i xs)
  then have ih: "fetch_attempts net (xs @ k # ys)
     = (Some body,
        concat (map (\<lambda>i. failed_attempt_events i (net i)) xs) @ [PacingSleep, Get k])"
    and nd: "\<not> delivers (net i)"
    by simp_all
  from nd show ?case
    by (cases "net i")
       (auto simp: ih failed_attempt_events_def delivers_def split: sum.splits)
qed

text \<open>
  Claim C6: \<open>fetch\<close> makes at most \<open>RETRY_ATTEMPTS\<close> attempts, numbered from 0. If none of
  them delivers a body (status 200 and a text that can be read), it returns \<open>None\<close>, not
  an exception, after exactly that many requests; an attempt \<open>i\<close> answered with status 429
  is followed by a sleep of \<open>5 * (i + 1)\<close> seconds before the next attempt, a transport
  fault is logged, and any other status just ends the attempt. If attempt \<open>k\<close> is the first
  to deliver, \<open>fetch\<close> returns its body after the \<open>k\<close> failed attempts.
\<close>

theorem fetch_retries_then_none:
  "((\<forall>i < nat n. \<not> delivers (net i)) \<longrightarrow>
      fetch n net
        = (None, concat (map (\<lambda>i. failed_attempt_events i (net i)) [0..<nat n]))) \<and>
   (\<forall>k body. k < nat n \<and> net k = Response 200 (Inr body) \<and> (\<forall>i < k. \<not> delivers (net i)) \<longrightarrow>
      fetch n net
        = (Some body,
           concat (map (\<lambda>i. failed_attempt_events i (net i)) [0..<k]) @ [PacingSleep, Get k])) \<and>
   (\<forall>i s t. failed_attempt_events i (Response 429 t) = [PacingSleep, Get i, BackoffSleep (5 * (i + 1))] \<and>
            failed_attempt_events i TransportFault = [PacingSleep, Get i, AttemptFailed (i + 1)] \<and>
            (s \<noteq> 200 \<and> s \<noteq> 429 \<longrightarrow> failed_attempt_events i (Response s t) = [PacingSleep, Get i]))"
proof (intro conjI allI impI)
  assume "\<forall>i < nat n. \<not> delivers (net i)"
  then have "\<forall>i \<in> set [0..<nat n]. \<not> delivers (net i)" by simp
  then show "fetch n net
        = (None, concat (map (\<lambda>i. failed_attempt_events i (net i)) [0..<nat n]))"
    unfolding fetch_def by (rule fetch_attempts_exhausted)
next
  fix k body
  assume a: "k < nat n \<and> net k = Response 200 (Inr body) \<and> (\<forall>i < k. \<not> delivers (net i))"
  then have split: "[0..<nat n] = [0..<k] @ k # [Suc k..<nat n]"
    by (metis le_add1 less_imp_add_positive upt_add_eq_append upt_conv_Cons zero_le)
  from a have "\<forall>i \<in> set [0..<k]. \<not> delivers (net i)" by simp
  with a show "fetch n net
        = (Some body,
           concat (map (\<lambda>i. failed_attempt_events i (net i)) [0..<k]) @ [PacingSleep, Get k])"
    unfolding fetch_def split by (intro fetch_attempts_delivered) auto
qed (simp_all add: failed_attempt_events_def)

theorem fetch_retries_then_none_witness:
  "fetch 2 (\<lambda>i. if i = 0 then Response 429 (Inr []) else TransportFault)
     = (None, [PacingSleep, Get 0, BackoffSleep 5, PacingSleep, Get 1, AttemptFailed 2]) \<and>
   fetch 3 (\<lambda>i. if i = 0 then Response 503 (Inr []) else Response 200 (Inr (cp ''<html>'')))
     = (Some (cp ''<html>''), [PacingSleep, Get 0, PacingSleep, Get 1])"
proof -
  let ?net1 = "\<lambda>i::nat. if i = 0 then Response 429 (Inr []) else TransportFault"
  let ?net2 = "\<lambda>i::nat. if i = 0 then Response 503 (Inr []) else Response 200 (Inr (cp ''<html>''))"
  have u2: "[0..<2] = [0::nat, 1]" by (simp add: upt_rec)
  have a: "fetch 2 ?net1
     = (None, [PacingSleep, Get 0, BackoffSleep 5, PacingSleep, Get 1, AttemptFailed 2])"
    using fetch_retries_then_none [of 2 ?net1]
    by (simp add: delivers_def failed_attempt_events_def u2)
  have u1: "[0..<1] = [0::nat]" by (simp add: upt_rec)
  have b: "fetch 3 ?net2 = (Some (cp ''<html>''), [PacingSleep, Get 0, PacingSleep, Get 1])"
  proof -
    from fetch_retries_then_none [of 3 ?net2]
    have "1 < nat 3 \<and> ?net2 1 = Response 200 (Inr (cp ''<html>'')) \<and> (\<forall>i < 1. \<not> delivers (?net2 i)) \<longrightarrow>
          fetch 3 ?net2 = (Some (cp ''<html>''),
             concat (map (\<lambda>i. failed_attempt_events i (?net2 i)) [0..<1]) @ [PacingSleep, Get 1])"
      by blast
    then show ?thesis
      by (simp add: delivers_def failed_attempt_events_def u1)
  qed
  from a b show ?thesis by blast
qed

section \<open>save_cars\<close>

lemma insert_rows_ok:
  "distinct (map url cs) \<Longrightarrow> url ` set cs \<inter> url ` set t = {} \<Longrightarrow>
   insert_rows t cs = Inr (t @ cs)"
proof (induction cs arbitrary: t)
  case Nil
  then show ?case by simp
next
  case (Cons c cs)
  from Cons.prems have n: "url c \<notin> url ` set t" by auto
  from Cons.prems have "distinct (map url cs)" "url ` set cs \<inter> url ` set (t @ [c]) = {}"
    by auto
  then have "insert_rows (t @ [c]) cs = Inr ((t @ [c]) @ cs)" by (rule Cons.IH)
  with n show ?case by simp
qed

lemma insert_rows_fails:
  "\<not> distinct (map url cs) \<or> url ` set cs \<inter> url ` set t \<noteq> {} \<Longrightarrow>
   insert_rows t cs = Inl IntegrityError"
proof (induction cs arbitrary: t)
  case Nil
  then show ?case by simp
next
  case (Cons c cs)
  show ?case
  proof (cases "url c \<in> url ` set t")
    case True
    then show ?thesis by simp
  next
    case False
    with Cons.prems
    have "\<not> distinct (map url cs) \<or> url ` set cs \<inter> url ` set (t @ [c]) \<noteq> {}"
      by auto
    then have "insert_rows (t @ [c]) cs = Inl IntegrityError" by (rule Cons.IH)
    with False show ?thesis by simp
  qed
qed

lemma save_cars_success:
  "up d \<Longrightarrow> list_all row_in_range cars \<Longrightarrow> distinct (map url cars) \<Longrightarrow>
   url ` set cars \<inter> url ` set (rows d) = {} \<Longrightarrow>
   save_cars d cars = (d\<lparr>rows := rows d @ cars\<rparr>, [SessionCommit, SessionCommit, SessionClose])"
  by (cases "cars = []")
     (simp_all add: save_cars_def get_db_def save_cars_body_def session_commit_def add_all_def
        insert_rows_ok)

lemma save_cars_nothing:
  "save_cars d [] = (d, [SessionCommit, SessionCommit, SessionClose])"
  by (simp add: save_cars_def get_db_def save_cars_body_def session_commit_def add_all_def)

text \<open>
  Claim C9: when the bulk insert of a batch fails, because the server does not answer a
  batch that has rows, or because a row has a value that its integer column cannot hold, or
  because a URL of the batch is stored already or occurs twice in the batch, \<open>save_cars\<close>
  leaves the database as it was (no row of the batch is committed), tries the commit once,
  rolls back, logs the failure in \<open>get_db\<close> and again in \<open>save_cars\<close>, and returns to its
  caller without an exception.
\<close>

theorem save_cars_failure_drops_batch:
  "(cars \<noteq> [] \<and> \<not> up d) \<or> \<not> list_all row_in_range cars \<or> \<not> distinct (map url cars) \<or>
   url ` set cars \<inter> url ` set (rows d) \<noteq> {} \<Longrightarrow>
   \<exists>e. save_cars d cars =
         (d, [SessionCommit, SessionRollback, LogError ''Database error'' e, SessionClose,
              LogError ''Error saving cars'' e])"
proof -
  assume a: "(cars \<noteq> [] \<and> \<not> up d) \<or> \<not> list_all row_in_range cars \<or>
             \<not> distinct (map url cars) \<or> url ` set cars \<inter> url ` set (rows d) \<noteq> {}"
  then have ne: "cars \<noteq> []" by auto
  show ?thesis
  proof (cases "up d \<and> list_all row_in_range cars")
    case False
    with ne show ?thesis
      by (auto simp: save_cars_def get_db_def save_cars_body_def session_commit_def
            add_all_def)
  next
    case True
    with a have "\<not> distinct (map url cars) \<or> url ` set cars \<inter> url ` set (rows d) \<noteq> {}"
      by blast
    then have "insert_rows (rows d) cars = Inl IntegrityError"
      by (rule insert_rows_fails)
    with True ne show ?thesis
      by (simp add: save_cars_def get_db_def save_cars_body_def session_commit_def
            add_all_def)
  qed
qed

theorem save_cars_failure_drops_batch_witness:
  "fst (save_cars \<lparr>rows = [bare_car (cp ''/auto_1.html'')], up = True\<rparr>
          [bare_car (cp ''/auto_2.html''), bare_car (cp ''/auto_1.html'')])
     = \<lparr>rows = [bare_car (cp ''/auto_1.html'')], up = True\<rparr> \<and>
   length (filter (\<lambda>ev. ev = SessionCommit)
             (snd (save_cars \<lparr>rows = [bare_car (cp ''/auto_1.html'')], up = True\<rparr>
                     [bare_car (cp ''/auto_2.html''), bare_car (cp ''/auto_1.html'')]))) = 1 \<and>
   fst (save_cars \<lparr>rows = [], up = False\<rparr> [bare_car (cp ''/auto_2.html'')])
     = \<lparr>rows = [], up = False\<rparr>"
proof -
  let ?d = "\<lparr>rows = [bare_car (cp ''/auto_1.html'')], up = True\<rparr>"
  let ?cars = "[bare_car (cp ''/auto_2.html''), bare_car (cp ''/auto_1.html'')]"
  let ?d2 = "\<lparr>rows = [], up = False\<rparr>"
  let ?cars2 = "[bare_car (cp ''/auto_2.html'')]"
  have "url ` set ?cars \<inter> url ` set (rows ?d) \<noteq> {}" by simp
  then have 1: "\<exists>e. save_cars ?d ?cars =
         (?d, [SessionCommit, SessionRollback, LogError ''Database error'' e, SessionClose,
              LogError ''Error saving cars'' e])"
    by (intro save_cars_failure_drops_batch) blast
  have "?cars2 \<noteq> [] \<and> \<not> up ?d2" by simp
  then have 2: "\<exists>e. save_cars ?d2 ?cars2 =
         (?d2, [SessionCommit, SessionRollback, LogError ''Database error'' e, SessionClose,
              LogError ''Error saving cars'' e])"
    by (intro save_cars_failure_drops_batch) blast
  from 1 2 show ?thesis by auto
qed

section \<open>Evaluating the floating-point operations\<close>

declare bit_length.simps [simp del]

lemma bit_length_0 [simp]: "bit_length 0 = 0"
  by (simp add: bit_length.simps)

lemma bit_length_numeral [simp]:
  "bit_length (numeral k) = Suc (bit_length (numeral k div 2))"
  by (subst bit_length.simps) simp

lemma bit_length_1 [simp]: "bit_length 1 = 1"
  by (subst bit_length.simps) simp

lemma bit_length_Suc0 [simp]: "bit_length (Suc 0) = 1"
  by (subst bit_length.simps) simp

lemma not_isdecimal_euro [simp]: "\<not> isdecimal 8364"
  by (simp add: isdecimal_def decimal_value_def decimal_zeros_def)

text \<open>
  The two literals: \<open>41.22\<close> is the double \<open>5801199270006620 / 2 ^ 47\<close>, a little below
  4122/100, and \<open>1.1\<close> is \<open>4953959590107546 / 2 ^ 52\<close>, a little above 11/10.
\<close>

lemma literal_41_22_eq: "literal_41_22 = Finite 5801199270006620 (- 47)"
  by (simp add: literal_41_22_def round_double_def floor_log2_def rne_def Let_def)

lemma literal_1_1_eq: "literal_1_1 = Finite 4953959590107546 (- 52)"
  by (simp add: literal_1_1_def round_double_def floor_log2_def rne_def Let_def)

lemmas price_eval =
  parse_price_def convert_price_def eur_to_usd_def uah_to_usd_def clean_text_def
  price_re_def Plus_def cp_def hrn_def euro_def strip_def py_int_def digits_value_def digit_of_def decimal_value_def decimal_zeros_def startswith_def
  literal_41_22_eq literal_1_1_eq float_of_int_def round_double_def floor_log2_def rne_def
  Let_def

section \<open>The pattern of parse_price\<close>

lemma star_class_hd:
  "length s \<le> n \<Longrightarrow>
   star_iter n (matches (Chr P)) (s, g) \<noteq> [] \<and>
   hd (star_iter n (matches (Chr P)) (s, g)) = (dropWhile P s, g)"
proof (induction n arbitrary: s)
  case 0
  then show ?case by simp
next
  case (Suc n)
  show ?case
  proof (cases s)
    case Nil
    then show ?thesis by simp
  next
    case (Cons c s')
    show ?thesis
    proof (cases "P c")
      case True
      from Suc.prems Cons have "length s' \<le> n" by simp
      from Suc.IH [OF this]
      have ih: "star_iter n (matches (Chr P)) (s', g) \<noteq> []"
        "hd (star_iter n (matches (Chr P)) (s', g)) = (dropWhile P s', g)"
        by simp_all
      from True Cons ih show ?thesis by simp
    next
      case False
      with Cons show ?thesis by simp
    qed
  qed
qed

lemma take_length_dropWhile:
  "take (length s - length (dropWhile P s)) s = takeWhile P s"
proof -
  have "length s - length (dropWhile P s) = length (takeWhile P s)"
    by (metis add_diff_cancel_right' length_append takeWhile_dropWhile_id)
  then show ?thesis
    by (metis append_eq_conv_conj takeWhile_dropWhile_id)
qed

lemma matches_price_re_digit:
  "isdecimal c \<Longrightarrow>
   matches price_re (c # s, g) \<noteq> [] \<and>
   snd (hd (matches price_re (c # s, g))) = g(1 \<mapsto> takeWhile isdecimal (c # s))"
proof -
  assume d: "isdecimal c"
  from star_class_hd [of s "length s" isdecimal g]
  have st: "star_iter (length s) (matches (Chr isdecimal)) (s, g) \<noteq> []"
    "hd (star_iter (length s) (matches (Chr isdecimal)) (s, g)) = (dropWhile isdecimal s, g)"
    by simp_all
  have pl: "matches (Plus (Chr isdecimal)) (c # s, g)
              = star_iter (length s) (matches (Chr isdecimal)) (s, g)"
    using d by (simp add: Plus_def)
  have tk: "take (Suc (length s) - length (dropWhile isdecimal s)) (c # s)
              = c # takeWhile isdecimal s"
  proof -
    have "length (dropWhile isdecimal s) \<le> length s"
      by (rule length_dropWhile_le)
    then have "Suc (length s) - length (dropWhile isdecimal s)
                 = Suc (length s - length (dropWhile isdecimal s))"
      by simp
    then show ?thesis by (simp add: take_length_dropWhile)
  qed
  from st pl tk d show ?thesis
    by (simp add: price_re_def hd_map)
qed

lemma matches_price_re_none:
  "s = [] \<or> \<not> isdecimal (hd s) \<Longrightarrow> matches price_re (s, g) = []"
  by (cases s) (auto simp: price_re_def Plus_def)

lemma re_search_price_re:
  "re_search price_re s =
     (if digit_run s = [] then None else Some (Map.empty(1 \<mapsto> digit_run s)))"
proof (induction s)
  case Nil
  then show ?case by (simp add: matches_price_re_none digit_run_def)
next
  case (Cons c s)
  show ?case
  proof (cases "isdecimal c")
    case True
    from matches_price_re_digit [OF True, of s Map.empty]
    obtain st rest where m: "matches price_re (c # s, Map.empty) = st # rest"
      and g: "snd st = Map.empty(1 \<mapsto> takeWhile isdecimal (c # s))"
      by (cases "matches price_re (c # s, Map.empty)") auto
    from True have r: "digit_run (c # s) = takeWhile isdecimal (c # s)"
      by (simp add: digit_run_def)
    from True have "digit_run (c # s) \<noteq> []"
      by (simp add: digit_run_def)
    with m g r show ?thesis by simp
  next
    case False
    then have m: "matches price_re (c # s, Map.empty) = []"
      by (simp add: matches_price_re_none)
    from False have r: "digit_run (c # s) = digit_run s"
      by (simp add: digit_run_def)
    from m have step: "re_search price_re (c # s) = re_search price_re s"
      by simp
    show ?thesis unfolding step r by (rule Cons.IH)
  qed
qed

section \<open>int() on a run of digits\<close>

lemma list_all_digit_run: "list_all isdecimal (digit_run s)"
  by (simp add: digit_run_def list_all_iff) (metis set_takeWhileD)

lemma not_isdecimal_underscore: "\<not> isdecimal 0x5F"
  by (simp add: isdecimal_low)

lemma int_literal_digits: "ds \<noteq> [] \<Longrightarrow> list_all isdecimal ds \<Longrightarrow> int_literal ds"
proof (induction ds rule: int_literal.induct)
  case 1
  then show ?case by simp
next
  case (2 c)
  then show ?case by simp
next
  case (3 c u r)
  from "3.prems" have u: "isdecimal u" by simp
  with not_isdecimal_underscore have "u \<noteq> 0x5F" by auto
  with 3 show ?case by simp
qed

lemma strip_digits: "list_all isdecimal ds \<Longrightarrow> strip ds = ds"
proof -
  assume a: "list_all isdecimal ds"
  have 1: "dropWhile isspace ds = ds"
    using a by (cases ds) (auto dest: isdecimal_not_isspace)
  have 2: "dropWhile isspace (rev ds) = rev ds"
    using a by (cases "rev ds") (auto simp: list_all_iff dest!: isdecimal_not_isspace
        intro: rev_image_eqI) 
  show ?thesis by (simp add: strip_def 1 2)
qed

lemma py_int_digits:
  "ds \<noteq> [] \<Longrightarrow> list_all isdecimal ds \<Longrightarrow> py_int ds = Inr (int (digits_value ds))"
proof -
  assume ne: "ds \<noteq> []" and a: "list_all isdecimal ds"
  then have h: "isdecimal (hd ds)" by (cases ds) auto
  then have "hd ds \<noteq> 0x2D" "hd ds \<noteq> 0x2B" by auto
  moreover have "filter isdecimal ds = ds"
    using a by (simp add: list_all_iff)
  ultimately show ?thesis
    using ne a by (simp add: py_int_def strip_digits int_literal_digits Let_def)
qed

section \<open>parse_price without the pattern\<close>

lemma not_ValueError_TypeError:
  "float_of_int a = Inl e \<Longrightarrow> e = OverflowError"
  "int_of_float x = Inl e \<Longrightarrow> e = OverflowError"
  by (auto simp: float_of_int_def split: pyfloat.splits) (cases x; simp)

lemma literal_41_22_nonzero:
  "float_truediv (Finite m e) literal_41_22 = Inr (round_double (m * 2 ^ nat (e + 47))
      (5801199270006620 * 2 ^ nat (- 47 - e)))"
  by (simp add: literal_41_22_eq)

lemma eur_to_usd_error: "eur_to_usd a = Inl e \<Longrightarrow> e = OverflowError"
  by (auto simp: eur_to_usd_def not_ValueError_TypeError split: sum.splits)

lemma float_truediv_literal: "float_truediv x literal_41_22 \<noteq> Inl e"
  by (cases x) (simp_all add: literal_41_22_eq)

lemma uah_to_usd_error: "uah_to_usd a = Inl e \<Longrightarrow> e = OverflowError"
  by (auto simp: uah_to_usd_def float_truediv_literal not_ValueError_TypeError
      split: sum.splits)

lemma parse_price_closed:
  "parse_price s =
     (if digit_run (clean_text s) = [] then Inr 0
      else if contains (clean_text s) euro then eur_to_usd (amount_of (clean_text s))
      else if contains (clean_text s) hrn then uah_to_usd (amount_of (clean_text s))
      else Inr (amount_of (clean_text s)))"
proof (cases "s = [] \<or> s = cp ''0''")
  case True
  then show ?thesis
  proof
    assume "s = []"
    then show ?thesis
      by (simp add: parse_price_def clean_text_def strip_def digit_run_def)
  next
    assume z: "s = cp ''0''"
    have c: "clean_text (cp ''0'') = cp ''0''"
      by (simp add: clean_text_def strip_def cp_def)
    have r: "digit_run (cp ''0'') = cp ''0''"
      by (simp add: digit_run_def cp_def)
    have n: "\<not> contains (cp ''0'') euro" "\<not> contains (cp ''0'') hrn"
      by (simp_all add: cp_def euro_def hrn_def startswith_def)
    have v: "amount_of (cp ''0'') = 0"
      by (simp add: amount_of_def r) (simp add: cp_def digits_value_def digit_of_def
          decimal_value_def decimal_zeros_def)
    show ?thesis
      unfolding z c by (simp add: parse_price_def r n v)
  qed
next
  case False
  show ?thesis
  proof (cases "digit_run (clean_text s) = []")
    case True
    with False show ?thesis
      by (simp add: parse_price_def re_search_price_re Let_def)
  next
    case ne: False
    have pi: "py_int (digit_run (clean_text s)) = Inr (amount_of (clean_text s))"
      unfolding amount_of_def using ne list_all_digit_run by (rule py_int_digits)
    consider (e) "contains (clean_text s) euro"
      | (h) "\<not> contains (clean_text s) euro" "contains (clean_text s) hrn"
      | (n) "\<not> contains (clean_text s) euro" "\<not> contains (clean_text s) hrn"
      by blast
    then show ?thesis
    proof cases
      case e
      show ?thesis
      proof (cases "eur_to_usd (amount_of (clean_text s))")
        case (Inl err)
        with eur_to_usd_error have "err = OverflowError" by blast
        with Inl e False ne pi show ?thesis
          by (simp add: parse_price_def re_search_price_re Let_def convert_price_def)
      next
        case (Inr v)
        with e False ne pi show ?thesis
          by (simp add: parse_price_def re_search_price_re Let_def convert_price_def)
      qed
    next
      case h
      show ?thesis
      proof (cases "uah_to_usd (amount_of (clean_text s))")
        case (Inl err)
        with uah_to_usd_error have "err = OverflowError" by blast
        with Inl h False ne pi show ?thesis
          by (simp add: parse_price_def re_search_price_re Let_def convert_price_def)
      next
        case (Inr v)
        with h False ne pi show ?thesis
          by (simp add: parse_price_def re_search_price_re Let_def convert_price_def)
      qed
    next
      case n
      with False ne pi show ?thesis
        by (simp add: parse_price_def re_search_price_re Let_def convert_price_def)
    qed
  qed
qed



section \<open>What a match consumes and which groups it sets\<close>

lemma star_iter_suffix:
  assumes f: "\<And>st st'. st' \<in> set (f st) \<Longrightarrow> \<exists>u. fst st = u @ fst st'"
  shows "st' \<in> set (star_iter n f st) \<Longrightarrow> \<exists>u. fst st = u @ fst st'"
proof (induction n arbitrary: st)
  case 0
  then show ?case by simp
next
  case (Suc n)
  from Suc.prems consider (stop) "st' = st"
    | (more) mid where "mid \<in> set (f st)" "st' \<in> set (star_iter n f mid)"
    by auto
  then show ?case
  proof cases
    case stop
    then show ?thesis by simp
  next
    case more
    from f [OF more(1)] obtain u where u: "fst st = u @ fst mid" by blast
    from Suc.IH [OF more(2)] obtain w where "fst mid = w @ fst st'" by blast
    with u have "fst st = (u @ w) @ fst st'" by simp
    then show ?thesis by blast
  qed
qed

lemma matches_suffix:
  "st' \<in> set (matches r st) \<Longrightarrow> \<exists>u. fst st = u @ fst st'"
proof (induction r arbitrary: st st')
  case (Chr P)
  then show ?case by (cases "fst st") (auto split: if_splits)
next
  case (Seq a b)
  from Seq.prems obtain mid where m: "mid \<in> set (matches a st)" "st' \<in> set (matches b mid)"
    by auto
  from Seq.IH(1) [OF m(1)] obtain u where u: "fst st = u @ fst mid" by blast
  from Seq.IH(2) [OF m(2)] obtain w where "fst mid = w @ fst st'" by blast
  with u have "fst st = (u @ w) @ fst st'" by simp
  then show ?case by blast
next
  case (Alt a b)
  from Alt.prems have "st' \<in> set (matches a st) \<or> st' \<in> set (matches b st)" by simp
  then show ?case using Alt.IH by blast
next
  case (Opt a)
  from Opt.prems have "st' \<in> set (matches a st) \<or> st' = st" by auto
  then show ?case using Opt.IH by (metis append_Nil)
next
  case (Star a)
  from Star.prems have "st' \<in> set (star_iter (length (fst st)) (matches a) st)" by simp
  then show ?case using Star.IH by (rule star_iter_suffix [rotated])
next
  case (Group i a)
  from Group.prems obtain x where "x \<in> set (matches a st)" "fst st' = fst x" by auto
  then show ?case using Group.IH by metis
qed

lemma star_iter_groups:
  assumes f: "\<And>st st'. st' \<in> set (f st) \<Longrightarrow> snd st' i = snd st i"
  shows "st' \<in> set (star_iter n f st) \<Longrightarrow> snd st' i = snd st i"
proof (induction n arbitrary: st)
  case 0
  then show ?case by simp
next
  case (Suc n)
  from Suc.prems consider (stop) "st' = st"
    | (more) mid where "mid \<in> set (f st)" "st' \<in> set (star_iter n f mid)"
    by auto
  then show ?case
  proof cases
    case stop
    then show ?thesis by simp
  next
    case more
    from f [OF more(1)] Suc.IH [OF more(2)] show ?thesis by simp
  qed
qed

lemma matches_groups:
  "st' \<in> set (matches r st) \<Longrightarrow> i \<notin> group_numbers r \<Longrightarrow> snd st' i = snd st i"
proof (induction r arbitrary: st st')
  case (Chr P)
  then show ?case by (cases "fst st") (auto split: if_splits)
next
  case (Seq a b)
  from Seq.prems obtain mid where m: "mid \<in> set (matches a st)" "st' \<in> set (matches b mid)"
    by auto
  from Seq.prems(2) have "i \<notin> group_numbers a" "i \<notin> group_numbers b" by simp_all
  with Seq.IH(1) [OF m(1)] Seq.IH(2) [OF m(2)] show ?case by simp
next
  case (Alt a b)
  from Alt.prems have "st' \<in> set (matches a st) \<or> st' \<in> set (matches b st)"
    and "i \<notin> group_numbers a" "i \<notin> group_numbers b"
    by simp_all
  then show ?case using Alt.IH by blast
next
  case (Opt a)
  from Opt.prems have "st' \<in> set (matches a st) \<or> st' = st" and "i \<notin> group_numbers a"
    by auto
  then show ?case using Opt.IH by blast
next
  case (Star a)
  from Star.prems have in_star: "st' \<in> set (star_iter (length (fst st)) (matches a) st)"
    and ni: "i \<notin> group_numbers a"
    by simp_all
  have "\<And>st st'. st' \<in> set (matches a st) \<Longrightarrow> snd st' i = snd st i"
    using Star.IH ni by blast
  then show ?case using in_star by (rule star_iter_groups)
next
  case (Group j a)
  from Group.prems have ij: "i \<noteq> j" and ni: "i \<notin> group_numbers a" by simp_all
  from Group.prems obtain x where x: "x \<in> set (matches a st)"
    and "snd st' = (snd x)(j \<mapsto> take (length (fst st) - length (fst x)) (fst st))"
    by auto
  with ij have "snd st' i = snd x i" by simp
  with Group.IH [OF x ni] show ?case by simp
qed

lemma re_search_some:
  "re_search r s = Some m \<Longrightarrow> \<exists>t st'. st' \<in> set (matches r (t, Map.empty)) \<and> m = snd st'"
proof (induction s)
  case Nil
  then obtain st rest where "matches r ([], Map.empty) = st # rest" "m = snd st"
    by (cases "matches r ([], Map.empty)") auto
  then have "st \<in> set (matches r ([], Map.empty)) \<and> m = snd st" by simp
  then show ?case by blast
next
  case (Cons c s)
  show ?case
  proof (cases "matches r (c # s, Map.empty)")
    case Nil
    with Cons show ?thesis by simp
  next
    case (Cons st rest)
    with Cons.prems have "m = snd st" by simp
    moreover from Cons have "st \<in> set (matches r (c # s, Map.empty))" by simp
    ultimately show ?thesis by blast
  qed
qed

text \<open>Group 1 of the odometer pattern begins with a digit.\<close>

lemma odometer_group1:
  assumes "re_search odometer_re s = Some m"
  shows "\<exists>c u. m 1 = Some (c # u) \<and> isdecimal c"
proof -
  define X where "X = Seq (Plus (Chr isdecimal))
                        (Opt (Seq (Star (Chr isspace)) (Plus (Chr isdecimal))))"
  define Y where "Y = Seq (Star (Chr isspace))
              (Opt (Group 2 (Alt (Seq (Lit tis) (Opt (Lit (cp ''.''))))
                            (Alt (Seq (Lit tys) (Opt (Lit (cp ''.''))))
                                 (Lit km)))))"
  have re: "odometer_re = Seq (Group 1 X) Y"
    by (simp add: odometer_re_def X_def Y_def)
  have lit: "\<And>p. group_numbers (Lit p) = {}"
  proof -
    fix p show "group_numbers (Lit p) = {}"
      by (induction p rule: Lit.induct) simp_all
  qed
  have gy: "1 \<notin> group_numbers Y"
    by (simp add: Y_def lit)
  from assms obtain t st' where st': "st' \<in> set (matches odometer_re (t, Map.empty))"
    and m: "m = snd st'"
    using re_search_some by blast
  from st' obtain mid where mid: "mid \<in> set (matches (Group 1 X) (t, Map.empty))"
    and y: "st' \<in> set (matches Y mid)"
    by (auto simp: re)
  from matches_groups [OF y gy] have keep: "snd st' 1 = snd mid 1" .
  from mid obtain x where x: "x \<in> set (matches X (t, Map.empty))"
    and g: "snd mid 1 = Some (take (length t - length (fst x)) t)"
    by auto
  from x obtain p where p: "p \<in> set (matches (Plus (Chr isdecimal)) (t, Map.empty))"
    and xp: "x \<in> set (matches (Opt (Seq (Star (Chr isspace)) (Plus (Chr isdecimal)))) p)"
    by (auto simp: X_def)
  from p obtain q where q: "q \<in> set (matches (Chr isdecimal) (t, Map.empty))"
    and pq: "p \<in> set (matches (Star (Chr isdecimal)) q)"
    by (auto simp: Plus_def)
  from q obtain c where c: "t = c # fst q" "isdecimal c"
    by (cases t) (auto split: if_splits)
  from matches_suffix [OF pq] obtain u1 where "fst q = u1 @ fst p" by blast
  moreover from matches_suffix [OF xp] obtain u2 where "fst p = u2 @ fst x" by blast
  ultimately have "t = c # (u1 @ u2) @ fst x" using c by simp
  then have "take (length t - length (fst x)) t = c # u1 @ u2" by simp
  with g keep m c show ?thesis by simp
qed

section \<open>Non-negative results\<close>

lemma strip_hd:
  "\<not> isspace c \<Longrightarrow> \<exists>w. strip (c # u) = c # w"
proof -
  assume n: "\<not> isspace c"
  have "dropWhile isspace (rev u @ [c]) \<noteq> []"
    using n by (simp add: dropWhile_append)
  moreover have "last (dropWhile isspace (rev u @ [c])) = c"
    using n by (simp add: dropWhile_append)
  ultimately obtain w where "dropWhile isspace (rev u @ [c]) = w @ [c]"
    by (metis append_butlast_last_id)
  with n show ?thesis by (simp add: strip_def)
qed

lemma py_int_nonneg:
  "isdecimal c \<Longrightarrow> py_int (c # u) = Inr v \<Longrightarrow> 0 \<le> v"
proof -
  assume d: "isdecimal c" and p: "py_int (c # u) = Inr v"
  from d have "\<not> isspace c" by (rule isdecimal_not_isspace)
  then obtain w where w: "strip (c # u) = c # w" using strip_hd by blast
  from d have "c \<noteq> 0x2D" "c \<noteq> 0x2B" by auto
  with p w show ?thesis
    by (auto simp: py_int_def Let_def split: if_splits)
qed

lemma parse_odometer_nonneg: "parse_odometer lower s = Inr v \<Longrightarrow> 0 \<le> v"
proof -
  assume a: "parse_odometer lower s = Inr v"
  show ?thesis
  proof (cases "s = []")
    case True
    with a show ?thesis by (simp add: parse_odometer_def)
  next
    case False
    show ?thesis
    proof (cases "re_search odometer_re (lower s)")
      case None
      with a False show ?thesis by (simp add: parse_odometer_def)
    next
      case (Some m)
      from odometer_group1 [OF Some] obtain c u where g: "m 1 = Some (c # u)" "isdecimal c"
        by blast
      from a False Some g obtain w where w: "py_int (c # u) = Inr w"
        and v: "v = w \<or> v = w * 1000"
        by (auto simp: parse_odometer_def split: sum.splits option.splits if_splits)
      from py_int_nonneg [OF g(2) w] v show ?thesis by auto
    qed
  qed
qed

lemma rne_nonneg: "0 \<le> n \<Longrightarrow> 0 < d \<Longrightarrow> 0 \<le> rne n d"
proof -
  assume "0 \<le> n" "0 < d"
  then have "0 \<le> n div d" by (simp add: pos_imp_zdiv_nonneg_iff)
  then show ?thesis by (simp add: rne_def Let_def)
qed

lemma round_double_nonneg:
  "round_double n d = Finite m e \<Longrightarrow> 0 \<le> n \<Longrightarrow> 0 < d \<Longrightarrow> 0 \<le> m"
proof -
  assume r: "round_double n d = Finite m e" and n: "0 \<le> n" and d: "0 < d"
  show ?thesis
  proof (cases "n = 0")
    case True
    with r show ?thesis by (simp add: round_double_def)
  next
    case False
    define e' where "e' = max (floor_log2 (nat \<bar>n\<bar>) (nat d) - 52) (- 1074)"
    define m' where "m' = rne (\<bar>n\<bar> * 2 ^ nat (- e')) (d * 2 ^ nat e')"
    define big where "big = (2 ^ 1024 \<le> m' * 2 ^ nat e')"
    have m': "0 \<le> m'"
      unfolding m'_def using d by (intro rne_nonneg) simp_all
    from n False have s: "sgn n = 1" by simp
    from r False have "(if big then Infinite else Finite (sgn n * m') e') = Finite m e"
      unfolding round_double_def Let_def m'_def e'_def big_def by (simp only: if_False)
    then have "m = sgn n * m'"
      by (cases big) (simp_all only: if_True if_False pyfloat.inject pyfloat.distinct)
    with s m' show ?thesis by simp
  qed
qed

lemma int_of_float_nonneg: "int_of_float (Finite m e) = Inr v \<Longrightarrow> 0 \<le> m \<Longrightarrow> 0 \<le> v"
  by (auto simp: sgn_if pos_imp_zdiv_nonneg_iff split: if_splits)

lemma float_of_int_nonneg:
  "float_of_int a = Inr x \<Longrightarrow> 0 \<le> a \<Longrightarrow> \<exists>m e. x = Finite m e \<and> 0 \<le> m"
proof -
  assume f: "float_of_int a = Inr x" and a: "0 \<le> a"
  from f obtain m e where r: "round_double a 1 = Finite m e" and x: "x = Finite m e"
    by (cases "round_double a 1") (auto simp: float_of_int_def)
  from r a have "0 \<le> m" by (rule round_double_nonneg) simp
  with x show ?thesis by blast
qed

lemma eur_to_usd_nonneg: "eur_to_usd a = Inr v \<Longrightarrow> 0 \<le> a \<Longrightarrow> 0 \<le> v"
proof -
  assume r: "eur_to_usd a = Inr v" and a: "0 \<le> a"
  from r obtain x where x: "float_of_int a = Inr x"
    and v: "int_of_float (float_mul x literal_1_1) = Inr v"
    by (auto simp: eur_to_usd_def split: sum.splits)
  from float_of_int_nonneg [OF x a] obtain m e where me: "x = Finite m e" "0 \<le> m" by blast
  from v obtain m' e' where p: "float_mul x literal_1_1 = Finite m' e'"
    by (cases "float_mul x literal_1_1") auto
  from p me have r: "round_double (m * 4953959590107546 * 2 ^ nat (e + - 52))
                    (2 ^ nat (- (e + - 52))) = Finite m' e'"
    by (simp add: literal_1_1_eq)
  from me(2) have n: "0 \<le> m * 4953959590107546 * 2 ^ nat (e + - 52)" by simp
  from r n have "0 \<le> m'" by (rule round_double_nonneg) simp
  with v p show ?thesis using int_of_float_nonneg by metis
qed

lemma uah_to_usd_nonneg: "uah_to_usd a = Inr v \<Longrightarrow> 0 \<le> a \<Longrightarrow> 0 \<le> v"
proof -
  assume r: "uah_to_usd a = Inr v" and a: "0 \<le> a"
  from r obtain x y where x: "float_of_int a = Inr x"
    and y: "float_truediv x literal_41_22 = Inr y"
    and v: "int_of_float y = Inr v"
    by (auto simp: uah_to_usd_def split: sum.splits)
  from float_of_int_nonneg [OF x a] obtain m e where me: "x = Finite m e" "0 \<le> m" by blast
  from v obtain m' e' where p: "y = Finite m' e'"
    by (cases y) auto
  from y p me have r: "round_double (m * 2 ^ nat (e - - 47))
                    (5801199270006620 * 2 ^ nat (- 47 - e)) = Finite m' e'"
    by (simp add: literal_41_22_eq)
  from me(2) have n: "0 \<le> m * 2 ^ nat (e - - 47)" by simp
  from r n have "0 \<le> m'" by (rule round_double_nonneg) simp
  with v p show ?thesis using int_of_float_nonneg by metis
qed

text \<open>
  Claim C8: for every input text, a value that \<open>parse_price\<close> or \<open>parse_odometer\<close> produces
  is an integer that is not negative. Both are functions of their input alone (for
  \<open>parse_odometer\<close>, whatever \<open>str.lower\<close> returns), so the value is determined by the
  text, and it is an integer by type, never text. A call that raises produces no value:
  \<open>parse_odometer\<close> raises \<open>ValueError\<close> when its first group holds two digit runs, and
  \<open>parse_price\<close> raises \<open>OverflowError\<close> when the amount is beyond the range of a double.
\<close>

theorem normalizer_values_nonnegative:
  "(\<forall>v. parse_price s = Inr v \<longrightarrow> 0 \<le> v) \<and>
   (\<forall>v. parse_odometer lower t = Inr v \<longrightarrow> 0 \<le> v)"
proof (intro conjI allI impI)
  fix v
  assume "parse_price s = Inr v"
  then show "0 \<le> v"
    by (auto simp: parse_price_closed amount_of_def split: if_splits
        dest: eur_to_usd_nonneg uah_to_usd_nonneg)
next
  fix v
  assume "parse_odometer lower t = Inr v"
  then show "0 \<le> v" by (rule parse_odometer_nonneg)
qed

theorem normalizer_values_nonnegative_witness:
  "parse_price (cp ''24 200 '' @ euro) = Inr 26620 \<and>
   parse_odometer str_lower (cp ''95 '' @ tis @ cp ''. '' @ km) = Inr 95000 \<and>
   (0::int) \<le> 26620 \<and> (0::int) \<le> 95000"
proof -
  have p: "parse_price (cp ''24 200 '' @ euro) = Inr 26620"
    by (simp add: price_eval)
  have o: "parse_odometer str_lower (cp ''95 '' @ tis @ cp ''. '' @ km) = Inr 95000"
    by (simp add: odometer_eval)
  from normalizer_values_nonnegative
    [of "cp ''24 200 '' @ euro" str_lower "cp ''95 '' @ tis @ cp ''. '' @ km"] p o
  show ?thesis by blast
qed

end
